theory Spec2Isabelle
  imports
    Main
    "HOL-Library.Char_ord"
    "HOL-Library.List_Lexorder"
    "HOL-Library.Dlist"
    "HOL-Library.DAList"
begin

section \<open>Strings as NowPlaying.py sees them\<close>

text \<open>
  A Python \<open>str\<close> is a sequence of code points. The model takes the code points below 256
  (the type \<open>char\<close>), so a title is a \<open>string\<close> and \<open>length\<close> counts code points. On this
  range \<open>str.lower\<close> maps character by character, and the three character classes below are
  the ones of CPython 3: \<open>str.isspace\<close> (what \<open>str.strip()\<close> removes), the simple lower-case
  mapping, and the class \<open>\w\<close> of the \<open>re\<close> module for \<open>str\<close> patterns (\<open>str.isalnum\<close> or the
  underscore). Titles with other code points, where \<open>str.lower\<close> can lengthen a string, are
  the matter of the section "The search on all code points".
\<close>

definition chr_isspace :: "char \<Rightarrow> bool" where
  "chr_isspace c =
     (let n = (of_char c :: nat)
      in (9 \<le> n \<and> n \<le> 13) \<or> (28 \<le> n \<and> n \<le> 32) \<or> n = 133 \<or> n = 160)"

definition chr_lower :: "char \<Rightarrow> char" where
  "chr_lower c =
     (let n = (of_char c :: nat)
      in if (65 \<le> n \<and> n \<le> 90) \<or> (192 \<le> n \<and> n \<le> 214) \<or> (216 \<le> n \<and> n \<le> 222)
         then char_of (n + 32) else c)"

definition chr_isalnum :: "char \<Rightarrow> bool" where
  "chr_isalnum c =
     (let n = (of_char c :: nat)
      in (48 \<le> n \<and> n \<le> 57) \<or> (65 \<le> n \<and> n \<le> 90) \<or> (97 \<le> n \<and> n \<le> 122)
         \<or> n = 170 \<or> n = 178 \<or> n = 179 \<or> n = 181 \<or> n = 185 \<or> n = 186
         \<or> (188 \<le> n \<and> n \<le> 190) \<or> (192 \<le> n \<and> n \<le> 214)
         \<or> (216 \<le> n \<and> n \<le> 246) \<or> (248 \<le> n \<and> n \<le> 255))"

text \<open>The class \<open>\w\<close>: alphanumeric, or the underscore (code point 95).\<close>

definition chr_isword :: "char \<Rightarrow> bool" where
  "chr_isword c = (chr_isalnum c \<or> (of_char c :: nat) = 95)"

text \<open>\<open>s.strip()\<close>: leading and trailing white space removed.\<close>

definition str_strip :: "string \<Rightarrow> string" where
  "str_strip s = rev (dropWhile chr_isspace (rev (dropWhile chr_isspace s)))"

text \<open>\<open>s.lower()\<close>.\<close>

definition str_lower :: "string \<Rightarrow> string" where
  "str_lower s = map chr_lower s"

section \<open>The regular expression of \<open>search_games\<close>\<close>

text \<open>
  \<open>re.compile(rf'\b{re.escape(term_lower)}', re.IGNORECASE)\<close> is the assertion \<open>\b\<close> followed
  by the characters of the term, each one a literal after \<open>re.escape\<close>.

  \<open>\b\<close> holds at position \<open>i\<close> of the subject when exactly one of the character at \<open>i\<close> and
  the character before \<open>i\<close> is a word character, a position outside the subject counting as
  not a word character.
\<close>

definition word_boundary :: "string \<Rightarrow> nat \<Rightarrow> bool" where
  "word_boundary s i =
     ((i < length s \<and> chr_isword (s ! i)) \<noteq> (0 < i \<and> chr_isword (s ! (i - 1))))"

text \<open>
  The literal characters \<open>p\<close> match the subject at position \<open>i\<close>; under \<open>re.IGNORECASE\<close> a
  literal matches a character with the same lower-case form.
\<close>

definition literal_at :: "string \<Rightarrow> string \<Rightarrow> nat \<Rightarrow> bool" where
  "literal_at p s i =
     (i + length p \<le> length s \<and> str_lower (take (length p) (drop i s)) = str_lower p)"

text \<open>\<open>pattern.search(s)\<close> finds a match: some start position of the subject works.\<close>

definition re_search :: "string \<Rightarrow> string \<Rightarrow> bool" where
  "re_search p s = list_ex (\<lambda>i. word_boundary s i \<and> literal_at p s i) [0..<Suc (length s)]"

section \<open>The database and the global state\<close>

text \<open>
  The table \<open>games\<close> has the columns \<open>id\<close> and \<open>name TEXT NOT NULL UNIQUE\<close>; no statement of
  the program reads \<open>id\<close>, so a table is the list of its names, which the constraint keeps
  distinct (with SQLite's default collation two names are the same when they are equal as
  strings). The module's global \<open>checkbox_states\<close> is a dict from title to bool: an
  association list with distinct keys, in insertion order.
\<close>

record state =
  games :: "string dlist"
  checkbox_states :: "(string, bool) alist"

datatype error = IntegrityError

text \<open>\<open>INSERT INTO games (name) VALUES (?)\<close>: fails when the name is already a row.\<close>

definition insert_game :: "string \<Rightarrow> string dlist \<Rightarrow> error + string dlist" where
  "insert_game name tbl =
     (if Dlist.member tbl name then Inl IntegrityError else Inr (Dlist.insert name tbl))"

text \<open>\<open>DELETE FROM games WHERE name = ?\<close>.\<close>

definition delete_game :: "string \<Rightarrow> string dlist \<Rightarrow> string dlist" where
  "delete_game name tbl = Dlist.remove name tbl"

text \<open>
  \<open>SELECT name FROM games ORDER BY name\<close>: the names in ascending order of the default
  (binary) collation, which on code points is the lexicographic order of the strings.
\<close>

definition get_all_games :: "state \<Rightarrow> string list" where
  "get_all_games s = sort (list_of_dlist (games s))"

section \<open>Searching\<close>

definition exact_matches :: "string \<Rightarrow> string list \<Rightarrow> string list" where
  "exact_matches term_lower all_titles = filter (\<lambda>title. str_lower title = term_lower) all_titles"

definition partial_matches :: "string \<Rightarrow> string list \<Rightarrow> string list" where
  "partial_matches term_lower all_titles =
     filter (\<lambda>title. re_search term_lower (str_lower title) \<and> str_lower title \<noteq> term_lower)
       all_titles"

definition search_games :: "string \<Rightarrow> state \<Rightarrow> string list" where
  "search_games term0 s =
     (let term = str_strip term0
      in if term = [] then []
         else let term_lower = str_lower term;
                  all_titles = get_all_games s
              in exact_matches term_lower all_titles @ partial_matches term_lower all_titles)"

section \<open>The selection state\<close>

text \<open>
  \<open>create_checkbox\<close> gives a title its entry, \<open>False\<close>, when it has none. The widget it
  builds is bound to that entry and is not part of the model.
\<close>

definition create_checkbox :: "string \<Rightarrow> (string, bool) alist \<Rightarrow> (string, bool) alist" where
  "create_checkbox game_name cs =
     (if DAList.lookup cs game_name = None then DAList.update game_name False cs else cs)"

text \<open>
  \<open>refresh_all_games\<close> redraws the list: of its effects the model keeps the one on
  \<open>checkbox_states\<close>, a call of \<open>create_checkbox\<close> for every title, in the order of
  \<open>all_games.sort(key=lambda g: g.lower())\<close> (a stable sort).
\<close>

definition refresh_all_games :: "state \<Rightarrow> state" where
  "refresh_all_games s =
     (let all_games = get_all_games s
      in if all_games \<noteq> []
         then s\<lparr>checkbox_states :=
                  fold create_checkbox (sort_key str_lower all_games) (checkbox_states s)\<rparr>
         else s)"

definition select_all_games :: "state \<Rightarrow> state" where
  "select_all_games s =
     refresh_all_games
       (s\<lparr>checkbox_states :=
            fold (\<lambda>game. DAList.update game True) (get_all_games s) (checkbox_states s)\<rparr>)"

definition clear_selected_games :: "state \<Rightarrow> state" where
  "clear_selected_games s =
     refresh_all_games
       (s\<lparr>checkbox_states :=
            fold (\<lambda>game. DAList.update game False) (get_all_games s) (checkbox_states s)\<rparr>)"

text \<open>
  The first statement of \<open>confirm_bulk_deletion\<close>:
  \<open>[game for game, checked in checkbox_states.items() if checked]\<close>.
\<close>

definition selected_games :: "state \<Rightarrow> string list" where
  "selected_games s = map fst (filter snd (DAList.impl_of (checkbox_states s)))"

text \<open>
  \<open>confirm_bulk_deletion\<close> warns when nothing is selected (\<open>None\<close>); otherwise it opens the
  dialog whose button "Yes" runs \<open>do_delete\<close> on the selection taken at that moment.
\<close>

definition confirm_bulk_deletion :: "state \<Rightarrow> string list option" where
  "confirm_bulk_deletion s =
     (let selected = selected_games s in if selected = [] then None else Some selected)"

definition do_delete :: "string list \<Rightarrow> state \<Rightarrow> state" where
  "do_delete selected s =
     refresh_all_games
       (fold (\<lambda>game s'. s'\<lparr>games := delete_game game (games s'),
                            checkbox_states := DAList.delete game (checkbox_states s')\<rparr>)
          selected s)"

section \<open>Adding titles\<close>

datatype notice = EnterTitle | Added string | AlreadyInList string

text \<open>
  \<open>add_game\<close>: the text it puts into \<open>add_result\<close> is the notice returned here.
  \<open>update_search_results\<close>, called on success, only redraws the search results.
\<close>

definition add_game :: "string \<Rightarrow> state \<Rightarrow> notice \<times> state" where
  "add_game game0 s =
     (let game = str_strip game0
      in if game = [] then (EnterTitle, s)
         else case insert_game game (games s) of
                Inr tbl \<Rightarrow> (Added game, refresh_all_games (s\<lparr>games := tbl\<rparr>))
              | Inl IntegrityError \<Rightarrow> (AlreadyInList game, s))"

text \<open>
  \<open>handle_csv_upload\<close> reads the rows that \<open>csv.reader\<close> yields for the uploaded file, each
  row the list of its fields (the empty list for an empty line); these rows are the
  argument here. The body of the loop works on the counters \<open>imported\<close> and \<open>skipped\<close> and on
  the table.
\<close>

definition csv_row :: "string list \<Rightarrow> nat \<times> nat \<times> string dlist \<Rightarrow> nat \<times> nat \<times> string dlist" where
  "csv_row row acc =
     (case acc of (imported, skipped, tbl) \<Rightarrow>
        (case row of
           [] \<Rightarrow> (imported, skipped, tbl)
         | field # _ \<Rightarrow>
             (let game = str_strip field
              in if game = [] then (imported, skipped, tbl)
                 else case insert_game game tbl of
                        Inr tbl' \<Rightarrow> (imported + 1, skipped, tbl')
                      | Inl IntegrityError \<Rightarrow> (imported, skipped + 1, tbl))))"

text \<open>The result is the pair of counters of the notification, and the new state.\<close>

definition handle_csv_upload :: "string list list \<Rightarrow> state \<Rightarrow> (nat \<times> nat) \<times> state" where
  "handle_csv_upload reader s =
     (case fold csv_row reader (0, 0, games s) of
        (imported, skipped, tbl) \<Rightarrow> ((imported, skipped), refresh_all_games (s\<lparr>games := tbl\<rparr>)))"

section \<open>Picking a title\<close>

text \<open>
  \<open>random.choice(games)\<close> returns the element at an index below \<open>len(games)\<close> drawn from the
  generator. The draw is the argument \<open>k\<close>, reduced to an index; every index below the
  length is the reduction of some draw.
\<close>

definition random_choice :: "nat \<Rightarrow> 'a list \<Rightarrow> 'a" where
  "random_choice k xs = xs ! (k mod length xs)"

text \<open>
  \<open>pick_random\<close> shows the chosen title, or the message "No games in the database."
  (\<open>None\<close>) when there is none.
\<close>

definition pick_random :: "nat \<Rightarrow> state \<Rightarrow> string option" where
  "pick_random k s =
     (let games = get_all_games s
      in if games \<noteq> [] then Some (random_choice k games) else None)"

section \<open>The word boundary of the specification\<close>

text \<open>
  The word boundary in the words of the specification: the start of the entry, or the
  position immediately after a whitespace or non-alphanumeric separator. The query matches
  an entry when it occurs in it, as literal text and whatever the case, from such a position.
\<close>

definition spec_word_start :: "string \<Rightarrow> nat \<Rightarrow> bool" where
  "spec_word_start entry i = (i = 0 \<or> \<not> chr_isalnum (entry ! (i - 1)))"

definition spec_boundary_match :: "string \<Rightarrow> string \<Rightarrow> bool" where
  "spec_boundary_match query entry =
     list_ex (\<lambda>i. spec_word_start entry i \<and> literal_at query entry i) [0..<Suc (length entry)]"

section \<open>The search on all code points\<close>

text \<open>
  A title can hold any code point, and beyond 255 \<open>str.lower\<close> is no longer a map on
  characters: the lower-case form of a string can be longer than the string. So
  \<open>search_games\<close> is modelled a second time, with a string as the list of its code points
  and with what the Unicode database decides as parameters:
  \<^item> \<open>uc_isspace\<close>, the characters that \<open>str.strip()\<close> removes;
  \<^item> \<open>uc_lower\<close>, \<open>str.lower\<close>, a function on whole strings;
  \<^item> \<open>uc_isword\<close>, the class \<open>\w\<close>;
  \<^item> \<open>uc_ignorecase p c\<close>: under \<open>re.IGNORECASE\<close> the literal \<open>p\<close> of a pattern matches the
    character \<open>c\<close>.

  The definitions follow those of the sections above line by line; the listing that
  \<open>get_all_games()\<close> returns is the argument \<open>all_titles\<close>.
\<close>

record unicode =
  uc_isspace :: "nat \<Rightarrow> bool"
  uc_lower :: "nat list \<Rightarrow> nat list"
  uc_isword :: "nat \<Rightarrow> bool"
  uc_ignorecase :: "nat \<Rightarrow> nat \<Rightarrow> bool"

definition strip_u :: "unicode \<Rightarrow> nat list \<Rightarrow> nat list" where
  "strip_u U s = rev (dropWhile (uc_isspace U) (rev (dropWhile (uc_isspace U) s)))"

definition word_boundary_u :: "unicode \<Rightarrow> nat list \<Rightarrow> nat \<Rightarrow> bool" where
  "word_boundary_u U s i =
     ((i < length s \<and> uc_isword U (s ! i)) \<noteq> (0 < i \<and> uc_isword U (s ! (i - 1))))"

definition literal_at_u :: "unicode \<Rightarrow> nat list \<Rightarrow> nat list \<Rightarrow> nat \<Rightarrow> bool" where
  "literal_at_u U p s i =
     (i + length p \<le> length s \<and> list_all2 (uc_ignorecase U) p (take (length p) (drop i s)))"

definition re_search_u :: "unicode \<Rightarrow> nat list \<Rightarrow> nat list \<Rightarrow> bool" where
  "re_search_u U p s =
     list_ex (\<lambda>i. word_boundary_u U s i \<and> literal_at_u U p s i) [0..<Suc (length s)]"

definition exact_matches_u :: "unicode \<Rightarrow> nat list \<Rightarrow> nat list list \<Rightarrow> nat list list" where
  "exact_matches_u U term_lower all_titles =
     filter (\<lambda>title. uc_lower U title = term_lower) all_titles"

definition partial_matches_u :: "unicode \<Rightarrow> nat list \<Rightarrow> nat list list \<Rightarrow> nat list list" where
  "partial_matches_u U term_lower all_titles =
     filter (\<lambda>title. re_search_u U term_lower (uc_lower U title) \<and> uc_lower U title \<noteq> term_lower)
       all_titles"

definition search_games_u :: "unicode \<Rightarrow> nat list \<Rightarrow> nat list list \<Rightarrow> nat list list" where
  "search_games_u U term0 all_titles =
     (let term = strip_u U term0
      in if term = [] then []
         else let term_lower = uc_lower U term
              in exact_matches_u U term_lower all_titles @ partial_matches_u U term_lower all_titles)"

text \<open>
  A position of a string that starts a word for the regular expression: the start of the
  string, or a position whose preceding character is not a word character.
\<close>

definition word_start_u :: "unicode \<Rightarrow> nat list \<Rightarrow> nat \<Rightarrow> bool" where
  "word_start_u U s i = (i = 0 \<or> \<not> uc_isword U (s ! (i - 1)))"

text \<open>
  The specification's match on code points. An alphanumeric character is a word character
  other than the underscore (code point 95); the query occurs at a position of the entry
  when some substring of the entry that starts there has the lower-case form of the query.
\<close>

definition spec_word_start_u :: "unicode \<Rightarrow> nat list \<Rightarrow> nat \<Rightarrow> bool" where
  "spec_word_start_u U entry i =
     (i = 0 \<or> \<not> (uc_isword U (entry ! (i - 1)) \<and> entry ! (i - 1) \<noteq> 95))"

definition spec_occurs_u :: "unicode \<Rightarrow> nat list \<Rightarrow> nat list \<Rightarrow> nat \<Rightarrow> bool" where
  "spec_occurs_u U query entry i =
     list_ex (\<lambda>n. uc_lower U (take n (drop i entry)) = uc_lower U query)
       [0..<Suc (length entry - i)]"

definition spec_boundary_match_u :: "unicode \<Rightarrow> nat list \<Rightarrow> nat list \<Rightarrow> bool" where
  "spec_boundary_match_u U query entry =
     list_ex (\<lambda>i. spec_word_start_u U entry i \<and> spec_occurs_u U query entry i)
       [0..<Suc (length entry)]"

text \<open>
  An excerpt of the database, for the examples. Below 256 it is the tables of the first
  section. U+0130 (304), the capital I with a dot above, is a letter; its lower-case form is
  the two code points "i" (105) and U+0307 (775), the combining dot above, which is neither a
  letter nor a digit; and under \<open>re.IGNORECASE\<close> it matches what "i" matches. The other code
  points are left without a class and are their own lower case; no example holds one.
\<close>

definition lower_excerpt :: "nat \<Rightarrow> nat list" where
  "lower_excerpt n =
     (if n = 304 then [105, 775]
      else if n < 256 then [of_char (chr_lower (char_of n))] else [n])"

definition ucd_excerpt :: unicode where
  "ucd_excerpt =
     \<lparr>uc_isspace = (\<lambda>n. n < 256 \<and> chr_isspace (char_of n)),
      uc_lower = (\<lambda>s. concat (map lower_excerpt s)),
      uc_isword = (\<lambda>n. n = 304 \<or> (n < 256 \<and> chr_isword (char_of n))),
      uc_ignorecase = (\<lambda>p c. hd (lower_excerpt c) = hd (lower_excerpt p))\<rparr>"

text \<open>The code points of a string of the first section.\<close>

definition code_points :: "string \<Rightarrow> nat list" where
  "code_points s = map of_char s"

section \<open>The names of an import\<close>

text \<open>
  The candidate of a row is its first field, \<open>row[0]\<close>; an empty row has none. The names of
  a batch of raw candidates, in the words of the specification: each candidate trimmed, and
  skipped when that leaves nothing.
\<close>

definition first_fields :: "string list list \<Rightarrow> string list" where
  "first_fields reader = concat (map (take 1) reader)"

definition trimmed_names :: "string list \<Rightarrow> string list" where
  "trimmed_names raw_lines = filter (\<lambda>name. name \<noteq> []) (map str_strip raw_lines)"

section \<open>Facts about the listing and the selection state\<close>

lemma set_get_all_games: "set (get_all_games s) = set (list_of_dlist (games s))"
  by (simp add: get_all_games_def)

lemma distinct_get_all_games: "distinct (get_all_games s)"
  by (simp add: get_all_games_def)

lemma sorted_get_all_games: "sorted (get_all_games s)"
  by (simp add: get_all_games_def)

text \<open>The keys of the dict are distinct, so a title is selected when its value is \<open>True\<close>.\<close>

lemma set_selected_games:
  "set (selected_games s) = {g. DAList.lookup (checkbox_states s) g = Some True}"
proof -
  have d: "distinct (map fst (DAList.impl_of (checkbox_states s)))"
    by simp
  have "g \<in> set (selected_games s) \<longleftrightarrow> (g, True) \<in> set (DAList.impl_of (checkbox_states s))" for g
    by (force simp: selected_games_def)
  then show ?thesis
    using d by (auto simp: DAList.lookup.rep_eq)
qed

lemma lookup_create_checkbox:
  "DAList.lookup (create_checkbox g cs) k =
     (if k = g \<and> DAList.lookup cs g = None then Some False else DAList.lookup cs k)"
  by (simp add: create_checkbox_def)

lemma lookup_fold_create_checkbox:
  "DAList.lookup (fold create_checkbox gs cs) k =
     (if k \<in> set gs \<and> DAList.lookup cs k = None then Some False else DAList.lookup cs k)"
  by (induction gs arbitrary: cs) (auto simp: lookup_create_checkbox)

lemma lookup_fold_update:
  "DAList.lookup (fold (\<lambda>g. DAList.update g v) gs cs) k =
     (if k \<in> set gs then Some v else DAList.lookup cs k)"
  by (induction gs arbitrary: cs) (auto simp: DAList.lookup_update)

lemma games_refresh_all_games [simp]: "games (refresh_all_games s) = games s"
  by (simp add: refresh_all_games_def Let_def)

lemma get_all_games_refresh_all_games [simp]:
  "get_all_games (refresh_all_games s) = get_all_games s"
  by (simp add: get_all_games_def)

lemma lookup_refresh_all_games:
  "DAList.lookup (checkbox_states (refresh_all_games s)) k =
     (if k \<in> set (get_all_games s) \<and> DAList.lookup (checkbox_states s) k = None
      then Some False else DAList.lookup (checkbox_states s) k)"
  by (auto simp: refresh_all_games_def Let_def lookup_fold_create_checkbox)

text \<open>Redrawing the list selects nothing and deselects nothing.\<close>

lemma selected_refresh_all_games:
  "set (selected_games (refresh_all_games s)) = set (selected_games s)"
  by (auto simp: set_selected_games lookup_refresh_all_games split: if_splits)

lemma games_fold_delete:
  "set (list_of_dlist (games (fold (\<lambda>game s'. s'\<lparr>games := delete_game game (games s'),
        checkbox_states := DAList.delete game (checkbox_states s')\<rparr>) selected s)))
   = set (list_of_dlist (games s)) - set selected"
  by (induction selected arbitrary: s) (auto simp: delete_game_def)

lemma lookup_fold_delete:
  "DAList.lookup (checkbox_states (fold (\<lambda>game s'. s'\<lparr>games := delete_game game (games s'),
        checkbox_states := DAList.delete game (checkbox_states s')\<rparr>) selected s)) k
   = (if k \<in> set selected then None else DAList.lookup (checkbox_states s) k)"
  by (induction selected arbitrary: s) auto

section \<open>Bulk deletion\<close>

text \<open>
  Claim C5. Whatever the state and whatever the list of names handed to the bulk deletion,
  once \<open>do_delete\<close> has run none of the deleted names is selected, also when its entry was
  \<open>True\<close> before: the name has no entry left in \<open>checkbox_states\<close> at all, and it is no
  longer a row of the table.
\<close>

theorem do_delete_prunes_selection:
  "set selected \<inter> set (selected_games (do_delete selected s)) = {}
   \<and> set selected \<inter> {g. DAList.lookup (checkbox_states (do_delete selected s)) g \<noteq> None} = {}
   \<and> set selected \<inter> set (get_all_games (do_delete selected s)) = {}"
  by (auto simp: do_delete_def set_selected_games lookup_refresh_all_games set_get_all_games
        games_fold_delete lookup_fold_delete split: if_splits)

text \<open>
  When the dialog of \<open>confirm_bulk_deletion\<close> is answered with "Yes" in the state it was
  opened in, nothing is selected afterwards.
\<close>

lemma confirm_then_do_delete:
  assumes "confirm_bulk_deletion s = Some selected"
  shows "selected_games (do_delete selected s) = []"
proof -
  from assms have sel: "selected = selected_games s"
    by (simp add: confirm_bulk_deletion_def Let_def split: if_splits)
  have "set (selected_games (do_delete selected s)) = {}"
    unfolding sel
    by (auto simp: do_delete_def set_selected_games lookup_refresh_all_games
          lookup_fold_delete split: if_splits)
  then show ?thesis by simp
qed

section \<open>Select all, then clear\<close>

lemma get_all_games_checkbox_update [simp]:
  "get_all_games (s\<lparr>checkbox_states := cs\<rparr>) = get_all_games s"
  by (simp add: get_all_games_def)

lemma lookup_select_all_games:
  "DAList.lookup (checkbox_states (select_all_games s)) k =
     (if k \<in> set (get_all_games s) then Some True else DAList.lookup (checkbox_states s) k)"
  by (simp add: select_all_games_def lookup_refresh_all_games lookup_fold_update)

lemma lookup_clear_selected_games:
  "DAList.lookup (checkbox_states (clear_selected_games s)) k =
     (if k \<in> set (get_all_games s) then Some False else DAList.lookup (checkbox_states s) k)"
  by (simp add: clear_selected_games_def lookup_refresh_all_games lookup_fold_update)

lemma get_all_games_select_all_games [simp]:
  "get_all_games (select_all_games s) = get_all_games s"
  by (simp add: select_all_games_def)

lemma selected_clear_select:
  "set (selected_games (clear_selected_games (select_all_games s)))
     = set (selected_games s) - set (get_all_games s)"
  apply (simp add: set_selected_games lookup_clear_selected_games lookup_select_all_games)
  apply auto
  done

text \<open>
  Claim C3, as stated, for every selection state: it fails in a state that holds a selected
  title which is not a row of the table. Both loops run over \<open>get_all_games()\<close> and leave
  such an entry as it is.
\<close>

theorem select_all_then_clear_stale_key:
  "selected_games (clear_selected_games (select_all_games
      \<lparr>games = dlist_of_list [''Doom''],
        checkbox_states = DAList.update ''Halo'' True DAList.empty\<rparr>)) = [''Halo'']"
  by code_simp

text \<open>
  Claim C3, amended. After \<open>select_all_games\<close> and then \<open>clear_selected_games\<close> the selected
  titles are those that were selected before and are not rows of the table; so nothing is
  selected when every title selected before is a row of the table.
\<close>

theorem select_all_then_clear:
  "set (selected_games (clear_selected_games (select_all_games s)))
     = set (selected_games s) - set (get_all_games s)
   \<and> (set (selected_games s) \<subseteq> set (get_all_games s)
        \<longrightarrow> selected_games (clear_selected_games (select_all_games s)) = [])"
proof (intro conjI impI)
  show "set (selected_games (clear_selected_games (select_all_games s)))
     = set (selected_games s) - set (get_all_games s)"
    by (rule selected_clear_select)
next
  assume "set (selected_games s) \<subseteq> set (get_all_games s)"
  then have "set (selected_games (clear_selected_games (select_all_games s))) = {}"
    unfolding selected_clear_select by simp
  then show "selected_games (clear_selected_games (select_all_games s)) = []"
    by simp
qed

theorem select_all_then_clear_witness:
  "set (selected_games \<lparr>games = dlist_of_list [''Doom'', ''Quake''],
          checkbox_states = DAList.update ''Doom'' True DAList.empty\<rparr>)
     \<subseteq> set (get_all_games \<lparr>games = dlist_of_list [''Doom'', ''Quake''],
          checkbox_states = DAList.update ''Doom'' True DAList.empty\<rparr>)
   \<and> selected_games (clear_selected_games (select_all_games
        \<lparr>games = dlist_of_list [''Doom'', ''Quake''],
          checkbox_states = DAList.update ''Doom'' True DAList.empty\<rparr>)) = []"
proof -
  let ?s = "\<lparr>games = dlist_of_list [''Doom'', ''Quake''],
             checkbox_states = DAList.update ''Doom'' True DAList.empty\<rparr>"
  have h: "set (selected_games ?s) \<subseteq> set (get_all_games ?s)"
    by code_simp
  have "set (selected_games ?s) \<subseteq> set (get_all_games ?s)
          \<longrightarrow> selected_games (clear_selected_games (select_all_games ?s)) = []"
    using select_all_then_clear [of ?s] by (rule conjunct2)
  then have "selected_games (clear_selected_games (select_all_games ?s)) = []"
    using h by (rule mp)
  with h show ?thesis
    by (rule conjI)
qed

section \<open>Search results\<close>

lemma distinct_search_games: "distinct (search_games q s)"
  by (simp add: search_games_def Let_def exact_matches_def partial_matches_def
        distinct_get_all_games) auto

lemma set_search_games: "set (search_games q s) \<subseteq> set (list_of_dlist (games s))"
  by (auto simp: search_games_def Let_def exact_matches_def partial_matches_def
        set_get_all_games)

lemma get_all_games_empty: "get_all_games (s\<lparr>games := Dlist.empty\<rparr>) = []"
  by (simp add: get_all_games_def)

text \<open>
  Claim C8. Whatever the table and the query, \<open>search_games\<close> returns no title twice and
  returns only titles that are rows of the table; on the empty table it returns nothing.
\<close>

theorem search_games_distinct_members:
  "distinct (search_games q s)
   \<and> set (search_games q s) \<subseteq> set (list_of_dlist (games s))
   \<and> search_games q (s\<lparr>games := Dlist.empty\<rparr>) = []"
  by (simp add: distinct_search_games set_search_games)
     (simp add: search_games_def Let_def get_all_games_empty exact_matches_def
        partial_matches_def)

lemma search_games_groups:
  "str_strip q \<noteq> [] \<Longrightarrow>
   search_games q s = exact_matches (str_lower (str_strip q)) (get_all_games s)
                      @ partial_matches (str_lower (str_strip q)) (get_all_games s)"
  by (simp add: search_games_def Let_def)

lemma groups_sorted:
  "sorted (exact_matches t (get_all_games s)) \<and> sorted (partial_matches t (get_all_games s))"
  by (simp add: exact_matches_def partial_matches_def sorted_get_all_games sorted_wrt_filter)

subsection \<open>The exact matches\<close>

lemma filter_key_at_most_one:
  "distinct (map f xs) \<Longrightarrow> length (filter (\<lambda>x. f x = v) xs) \<le> 1"
proof (induction xs)
  case Nil
  then show ?case by simp
next
  case (Cons a xs)
  show ?case
  proof (cases "f a = v")
    case True
    from Cons.prems have "f a \<notin> f ` set xs"
      by simp
    with True have "\<forall>x\<in>set xs. f x \<noteq> v"
      by blast
    then have "filter (\<lambda>x. f x = v) xs = []"
      by (simp add: filter_empty_conv)
    with True show ?thesis by simp
  next
    case False
    with Cons show ?thesis by simp
  qed
qed

lemma distinct_map_sort:
  "distinct (map f (sort xs)) = distinct (map f xs)"
  by (simp add: distinct_map)

text \<open>
  Claim C4, as stated: the rows of a table are pairwise distinct, and still two of them are
  exact matches of one query, since they are compared in lower case.
\<close>

theorem exact_matches_two_spellings:
  "get_all_games \<lparr>games = dlist_of_list [''Doom'', ''DOOM''],
                    checkbox_states = DAList.empty\<rparr> = [''DOOM'', ''Doom'']
   \<and> exact_matches (str_lower (str_strip ''doom''))
        (get_all_games \<lparr>games = dlist_of_list [''Doom'', ''DOOM''],
                          checkbox_states = DAList.empty\<rparr>) = [''DOOM'', ''Doom'']"
  by code_simp

text \<open>
  Claim C4, amended. When the rows of the table are pairwise distinct also in lower case, a
  query has at most one exact match.
\<close>

theorem exact_matches_at_most_one:
  "distinct (map str_lower (list_of_dlist (games s)))
   \<Longrightarrow> length (exact_matches (str_lower (str_strip q)) (get_all_games s)) \<le> 1"
  unfolding exact_matches_def get_all_games_def
  by (rule filter_key_at_most_one) (simp add: distinct_map_sort)

theorem exact_matches_at_most_one_witness:
  "distinct (map str_lower (list_of_dlist (games
      \<lparr>games = dlist_of_list [''Doom'', ''Doom Eternal''], checkbox_states = DAList.empty\<rparr>)))
   \<and> length (exact_matches (str_lower (str_strip ''doom''))
        (get_all_games \<lparr>games = dlist_of_list [''Doom'', ''Doom Eternal''],
                          checkbox_states = DAList.empty\<rparr>)) \<le> 1"
proof -
  let ?s = "\<lparr>games = dlist_of_list [''Doom'', ''Doom Eternal''],
             checkbox_states = DAList.empty\<rparr>"
  have h: "distinct (map str_lower (list_of_dlist (games ?s)))"
    by code_simp
  then have "length (exact_matches (str_lower (str_strip ''doom'')) (get_all_games ?s)) \<le> 1"
    by (rule exact_matches_at_most_one)
  with h show ?thesis by (rule conjI)
qed

subsection \<open>The order of the results\<close>

text \<open>
  Claim C2. The result is the exact matches followed by the word-boundary matches
  (\<open>search_games_groups\<close>), each group in the order of \<open>get_all_games\<close>
  (\<open>groups_sorted\<close>). That order compares code points, so it is not the ascending
  case-insensitive order: with the rows "doom alpha" and "Doom Zero" the query "doom" gives
  "Doom Zero" before "doom alpha", while the list that \<open>refresh_all_games\<close> draws from the
  same rows, sorted with the key \<open>g.lower()\<close>, has "doom alpha" first.
\<close>

theorem search_games_order_not_case_insensitive:
  "search_games ''doom'' \<lparr>games = dlist_of_list [''doom alpha'', ''Doom Zero''],
                            checkbox_states = DAList.empty\<rparr> = [''Doom Zero'', ''doom alpha'']
   \<and> \<not> sorted (map str_lower (search_games ''doom''
          \<lparr>games = dlist_of_list [''doom alpha'', ''Doom Zero''],
             checkbox_states = DAList.empty\<rparr>))
   \<and> sort_key str_lower (get_all_games \<lparr>games = dlist_of_list [''doom alpha'', ''Doom Zero''],
                            checkbox_states = DAList.empty\<rparr>) = [''doom alpha'', ''Doom Zero'']"
  by code_simp

subsection \<open>The word-boundary matches\<close>

lemma chr_isword_lower: "chr_isword (chr_lower c) = chr_isword c"
  by (auto simp: chr_lower_def chr_isword_def chr_isalnum_def Let_def)

text \<open>
  On code points below 256 the search on all code points, with the excerpt of the database,
  is the search of the section "Searching".
\<close>

lemma of_char_less_256: "(of_char c :: nat) < 256"
proof -
  have "(of_char c :: nat) mod 256 < 256"
    by simp
  then show ?thesis
    by (simp only: of_char_mod_256)
qed

lemma of_char_not_304: "(of_char c :: nat) \<noteq> 304"
  using of_char_less_256 [of c] by linarith

lemma lower_excerpt_of_char: "lower_excerpt (of_char c) = [of_char (chr_lower c)]"
  using of_char_less_256 [of c] by (simp add: lower_excerpt_def of_char_not_304)

lemma isspace_of_char: "uc_isspace ucd_excerpt (of_char c) = chr_isspace c"
  using of_char_less_256 [of c] by (simp add: ucd_excerpt_def)

lemma isword_of_char: "uc_isword ucd_excerpt (of_char c) = chr_isword c"
  using of_char_less_256 [of c] by (simp add: ucd_excerpt_def of_char_not_304)

lemma ignorecase_of_char:
  "uc_ignorecase ucd_excerpt (of_char a) (of_char b) = (chr_lower a = chr_lower b)"
  by (auto simp: ucd_excerpt_def lower_excerpt_of_char)

lemma inj_code_points: "code_points s = code_points t \<longleftrightarrow> s = t"
  by (simp add: code_points_def inj_map_eq_map inj_of_char)

lemma lower_code_points: "uc_lower ucd_excerpt (code_points s) = code_points (str_lower s)"
  by (induction s) (simp_all add: ucd_excerpt_def code_points_def str_lower_def lower_excerpt_of_char)

lemma strip_code_points: "strip_u ucd_excerpt (code_points s) = code_points (str_strip s)"
proof -
  have d: "dropWhile (uc_isspace ucd_excerpt) (map of_char xs)
             = map of_char (dropWhile chr_isspace xs)" for xs
    by (induction xs) (simp_all add: isspace_of_char)
  show ?thesis
    by (simp add: strip_u_def str_strip_def code_points_def d rev_map)
qed

lemma word_boundary_code_points:
  "i \<le> length s \<Longrightarrow> word_boundary_u ucd_excerpt (code_points s) i = word_boundary s i"
  by (cases i) (auto simp: word_boundary_u_def word_boundary_def code_points_def isword_of_char)

lemma list_all2_same_key:
  "list_all2 (\<lambda>a b. f a = f b) xs ys \<longleftrightarrow> map f xs = map f ys"
proof (induction xs arbitrary: ys)
  case Nil
  then show ?case by simp
next
  case (Cons x xs)
  then show ?case by (cases ys) auto
qed

lemma literal_at_code_points:
  "literal_at_u ucd_excerpt (code_points p) (code_points s) i = literal_at p s i"
proof -
  have "list_all2 (uc_ignorecase ucd_excerpt) (map of_char p) (map of_char ys)
          \<longleftrightarrow> map chr_lower ys = map chr_lower p" for ys
    by (auto simp: list_all2_map1 list_all2_map2 ignorecase_of_char list_all2_same_key)
  then show ?thesis
    by (auto simp: literal_at_u_def literal_at_def code_points_def str_lower_def
          take_map drop_map)
qed

lemma re_search_code_points:
  "re_search_u ucd_excerpt (code_points p) (code_points s) = re_search p s"
proof -
  have "length (code_points s) = length s"
    by (simp add: code_points_def)
  then show ?thesis
    by (auto simp: re_search_u_def re_search_def list_ex_iff word_boundary_code_points
          literal_at_code_points simp del: upt_Suc)
qed

lemma exact_matches_code_points:
  "exact_matches_u ucd_excerpt (code_points t) (map code_points titles)
     = map code_points (exact_matches t titles)"
  by (simp add: exact_matches_u_def exact_matches_def filter_map comp_def lower_code_points
        inj_code_points)

lemma partial_matches_code_points:
  "partial_matches_u ucd_excerpt (code_points t) (map code_points titles)
     = map code_points (partial_matches t titles)"
  by (simp add: partial_matches_u_def partial_matches_def filter_map comp_def lower_code_points
        inj_code_points re_search_code_points)

lemma search_games_code_points:
  "search_games_u ucd_excerpt (code_points term) (map code_points (get_all_games s))
     = map code_points (search_games term s)"
proof -
  have e: "code_points xs = [] \<longleftrightarrow> xs = []" for xs
    by (simp add: code_points_def)
  show ?thesis
    by (simp add: search_games_u_def search_games_def Let_def strip_code_points e
          lower_code_points exact_matches_code_points partial_matches_code_points)
qed

text \<open>
  Where the pattern matches, its first character matches a character of the subject; when
  that can only be a word character, \<open>\b\<close> holds there exactly at a word start.
\<close>

lemma re_search_u_iff:
  "re_search_u U p s \<longleftrightarrow> (\<exists>i\<le>length s. word_boundary_u U s i \<and> literal_at_u U p s i)"
  by (simp add: re_search_u_def list_ex_iff Bex_def less_Suc_eq_le del: upt_Suc)

lemma literal_at_u_first:
  assumes "p \<noteq> []" and "literal_at_u U p s i"
  shows "i < length s \<and> uc_ignorecase U (hd p) (s ! i)"
proof -
  from assms have len: "i + length p \<le> length s"
    and all: "list_all2 (uc_ignorecase U) p (take (length p) (drop i s))"
    by (simp_all add: literal_at_u_def)
  from \<open>p \<noteq> []\<close> have pos: "0 < length p"
    by simp
  with len have i: "i < length s"
    by linarith
  from all pos have "uc_ignorecase U (p ! 0) (take (length p) (drop i s) ! 0)"
    by (rule list_all2_nthD)
  with pos i \<open>p \<noteq> []\<close> have "uc_ignorecase U (hd p) (s ! i)"
    by (simp add: hd_conv_nth)
  with i show ?thesis by simp
qed

lemma word_boundary_u_at_literal:
  assumes "p \<noteq> []" and "{c. uc_ignorecase U (hd p) c} \<subseteq> {c. uc_isword U c}"
    and "literal_at_u U p s i"
  shows "word_boundary_u U s i = word_start_u U s i"
proof -
  from literal_at_u_first [OF assms(1,3)]
  have i: "i < length s" and c: "uc_ignorecase U (hd p) (s ! i)"
    by simp_all
  from assms(2) c have "uc_isword U (s ! i)"
    by blast
  with i show ?thesis
    by (auto simp: word_boundary_u_def word_start_u_def)
qed

lemma re_search_u_word_start:
  assumes "p \<noteq> []" and "{c. uc_ignorecase U (hd p) c} \<subseteq> {c. uc_isword U c}"
  shows "re_search_u U p s \<longleftrightarrow> (\<exists>i. word_start_u U s i \<and> literal_at_u U p s i)"
proof -
  have "re_search_u U p s \<longleftrightarrow> (\<exists>i\<le>length s. word_boundary_u U s i \<and> literal_at_u U p s i)"
    by (rule re_search_u_iff)
  also have "\<dots> \<longleftrightarrow> (\<exists>i\<le>length s. word_start_u U s i \<and> literal_at_u U p s i)"
    using word_boundary_u_at_literal [OF assms] by blast
  also have "\<dots> \<longleftrightarrow> (\<exists>i. word_start_u U s i \<and> literal_at_u U p s i)"
  proof -
    have "i \<le> length s" if "literal_at_u U p s i" for i
      using that by (simp add: literal_at_u_def)
    then show ?thesis by blast
  qed
  finally show ?thesis .
qed

text \<open>
  In the excerpt every word character below 256 matches word characters only: the
  hypothesis on the first character of the query holds for it.
\<close>

lemma ignorecase_word_excerpt:
  assumes "chr_isword c"
  shows "{d. uc_ignorecase ucd_excerpt (of_char c) d} \<subseteq> {d. uc_isword ucd_excerpt d}"
proof
  fix d
  assume "d \<in> {d. uc_ignorecase ucd_excerpt (of_char c) d}"
  then have m: "hd (lower_excerpt d) = of_char (chr_lower c)"
    by (simp add: ucd_excerpt_def lower_excerpt_of_char)
  show "d \<in> {d. uc_isword ucd_excerpt d}"
  proof (cases "d = 304")
    case True
    then show ?thesis by (simp add: ucd_excerpt_def)
  next
    case False
    with m of_char_less_256 [of "chr_lower c"] have d: "d < 256"
      by (auto simp: lower_excerpt_def split: if_splits)
    with m False have "(of_char (chr_lower (char_of d)) :: nat) = of_char (chr_lower c)"
      by (simp add: lower_excerpt_def)
    then have "chr_lower (char_of d) = chr_lower c"
      by (simp only: of_char_eq_iff)
    then have "chr_isword (char_of d) = chr_isword c"
      by (metis chr_isword_lower)
    with assms d show ?thesis
      by (simp add: ucd_excerpt_def)
  qed
qed

text \<open>
  Claim C1, as stated, fails in five ways. An entry equal to the query in lower case is kept
  out of the group although the query occurs at its start. The underscore is a word
  character for \<open>\b\<close>, so "mario" is not found in "super_mario". A query that starts with a
  character that is not a word character is found only after a word character: "(beta)" is
  not found in "Halo (beta)", and "+" is found inside "C+". And the search runs on the
  lower-case form of the entry, not on the entry: in the title made of U+0130 and "stanbul"
  the query "stanbul" occurs only after the letter U+0130, but the lower-case form of the
  title has the combining dot U+0307 before "stanbul", and the title is found.
\<close>

theorem partial_matches_not_spec_boundary:
  "(spec_boundary_match (str_strip ''doom'') ''Doom''
      \<and> ''Doom'' \<notin> set (partial_matches (str_lower (str_strip ''doom''))
            (get_all_games \<lparr>games = dlist_of_list [''Doom'', ''Doom Eternal''],
                              checkbox_states = DAList.empty\<rparr>)))
   \<and> (spec_boundary_match (str_strip ''mario'') ''super_mario''
      \<and> ''super_mario'' \<notin> set (partial_matches (str_lower (str_strip ''mario''))
            (get_all_games \<lparr>games = dlist_of_list [''super_mario''],
                              checkbox_states = DAList.empty\<rparr>)))
   \<and> (spec_boundary_match (str_strip ''(beta)'') ''Halo (beta)''
      \<and> ''Halo (beta)'' \<notin> set (partial_matches (str_lower (str_strip ''(beta)''))
            (get_all_games \<lparr>games = dlist_of_list [''Halo (beta)''],
                              checkbox_states = DAList.empty\<rparr>)))
   \<and> (\<not> spec_boundary_match (str_strip ''+'') ''C+''
      \<and> ''C+'' \<in> set (partial_matches (str_lower (str_strip ''+''))
            (get_all_games \<lparr>games = dlist_of_list [''C+''],
                              checkbox_states = DAList.empty\<rparr>)))
   \<and> (\<not> spec_boundary_match_u ucd_excerpt (strip_u ucd_excerpt (code_points ''stanbul''))
          (304 # code_points ''stanbul'')
      \<and> 304 # code_points ''stanbul''
          \<in> set (partial_matches_u ucd_excerpt
                (uc_lower ucd_excerpt (strip_u ucd_excerpt (code_points ''stanbul'')))
                [304 # code_points ''stanbul'']))"
  by code_simp

text \<open>
  Claim C1, amended. Take a query whose trimmed form in lower case is not empty and starts
  with a character that matches word characters only when case is ignored (as a letter or
  digit of ASCII and the underscore do). An entry is in the word-boundary group exactly when
  it is in the listing, its lower-case form differs from the query in lower case, and the
  query in lower case occurs in the lower-case form of the entry, as literal text and
  whatever the case, from the start of that form or from a position of it that follows a
  character that is not a word character. This holds for all titles, whatever the tables of
  the Unicode database are.
\<close>

theorem partial_matches_u_word_start:
  assumes "uc_lower U (strip_u U query) \<noteq> []"
    and "{c. uc_ignorecase U (hd (uc_lower U (strip_u U query))) c} \<subseteq> {c. uc_isword U c}"
  shows "title \<in> set (partial_matches_u U (uc_lower U (strip_u U query)) all_titles)
           \<longleftrightarrow> title \<in> set all_titles
               \<and> uc_lower U title \<noteq> uc_lower U (strip_u U query)
               \<and> (\<exists>i. word_start_u U (uc_lower U title) i
                      \<and> literal_at_u U (uc_lower U (strip_u U query)) (uc_lower U title) i)"
  using re_search_u_word_start [OF assms]
  by (auto simp: partial_matches_u_def)

theorem partial_matches_u_word_start_witness:
  "uc_lower ucd_excerpt (strip_u ucd_excerpt (code_points '' stanbul'')) \<noteq> []
   \<and> {c. uc_ignorecase ucd_excerpt
            (hd (uc_lower ucd_excerpt (strip_u ucd_excerpt (code_points '' stanbul'')))) c}
       \<subseteq> {c. uc_isword ucd_excerpt c}
   \<and> 304 # code_points ''stanbul''
       \<in> set (partial_matches_u ucd_excerpt
                (uc_lower ucd_excerpt (strip_u ucd_excerpt (code_points '' stanbul'')))
                [code_points ''Istanbul'', 304 # code_points ''stanbul''])"
proof -
  let ?U = ucd_excerpt
  let ?q = "code_points '' stanbul''"
  let ?t = "304 # code_points ''stanbul''"
  have hd: "hd (uc_lower ?U (strip_u ?U ?q)) = 115"
    by code_simp
  have h1: "uc_lower ?U (strip_u ?U ?q) \<noteq> []"
    by code_simp
  have h2: "{c. uc_ignorecase ?U (hd (uc_lower ?U (strip_u ?U ?q))) c} \<subseteq> {c. uc_isword ?U c}"
  proof
    fix c
    assume "c \<in> {c. uc_ignorecase ?U (hd (uc_lower ?U (strip_u ?U ?q))) c}"
    then have "uc_ignorecase ?U 115 c"
      by (simp only: hd mem_Collect_eq)
    then have "hd (lower_excerpt c) = hd (lower_excerpt 115)"
      by (simp add: ucd_excerpt_def)
    also have "hd (lower_excerpt 115) = 115"
      by code_simp
    finally have c: "c < 256" and l: "of_char (chr_lower (char_of c)) = (115::nat)"
      by (auto simp: lower_excerpt_def split: if_splits)
    from l have "(of_char (chr_lower (char_of c)) :: nat) = of_char (CHR ''s'')"
      by simp
    then have l': "chr_lower (char_of c) = CHR ''s''"
      by (simp only: of_char_eq_iff)
    have "chr_isword (char_of c) = chr_isword (chr_lower (char_of c))"
      by (simp add: chr_isword_lower)
    also have "\<dots>"
      unfolding l' by code_simp
    finally show "c \<in> {c. uc_isword ?U c}"
      using c by (simp add: ucd_excerpt_def)
  qed
  have m: "?t \<in> set [code_points ''Istanbul'', ?t]"
    by simp
  have n: "uc_lower ?U ?t \<noteq> uc_lower ?U (strip_u ?U ?q)"
    by code_simp
  have "word_start_u ?U (uc_lower ?U ?t) 2
          \<and> literal_at_u ?U (uc_lower ?U (strip_u ?U ?q)) (uc_lower ?U ?t) 2"
    by code_simp
  then have e: "\<exists>i. word_start_u ?U (uc_lower ?U ?t) i
                  \<and> literal_at_u ?U (uc_lower ?U (strip_u ?U ?q)) (uc_lower ?U ?t) i"
    by (rule exI)
  from m n e have "?t \<in> set (partial_matches_u ?U (uc_lower ?U (strip_u ?U ?q))
                     [code_points ''Istanbul'', ?t])"
    by (simp only: partial_matches_u_word_start [OF h1 h2, of ?t "[code_points ''Istanbul'', ?t]"]
          simp_thms)
  with h1 h2 show ?thesis
    by (intro conjI)
qed

section \<open>Importing a file\<close>

lemma csv_row_empty: "csv_row [] acc = acc"
  by (simp add: csv_row_def split: prod.splits)

lemma csv_row_blank: "str_strip field = [] \<Longrightarrow> csv_row (field # rest) acc = acc"
  by (simp add: csv_row_def split: prod.splits)

lemma csv_row_take: "csv_row (take 1 row) acc = csv_row row acc"
  by (cases row) (simp_all add: csv_row_def)

lemma fold_csv_row_take: "fold csv_row (map (take 1) reader) acc = fold csv_row reader acc"
  by (induction reader arbitrary: acc) (simp_all add: csv_row_take del: One_nat_def)

lemma member_table: "Dlist.member tbl name \<longleftrightarrow> name \<in> set (list_of_dlist tbl)"
  by (simp add: Dlist.member_def)

lemma csv_row_name:
  "str_strip field \<noteq> [] \<Longrightarrow>
   csv_row (field # rest) (imported, skipped, tbl) =
     (if str_strip field \<in> set (list_of_dlist tbl) then (imported, skipped + 1, tbl)
      else (imported + 1, skipped, Dlist.insert (str_strip field) tbl))"
  by (simp add: csv_row_def insert_game_def member_table)

lemma trimmed_names_skip:
  "row = [] \<or> str_strip (hd row) = [] \<Longrightarrow>
   trimmed_names (first_fields (row # reader)) = trimmed_names (first_fields reader)"
  by (cases row) (auto simp: trimmed_names_def first_fields_def)

lemma trimmed_names_keep:
  "str_strip field \<noteq> [] \<Longrightarrow>
   trimmed_names (first_fields ((field # rest) # reader))
     = str_strip field # trimmed_names (first_fields reader)"
  by (simp add: trimmed_names_def first_fields_def)

lemma csv_row_skip:
  "row = [] \<or> str_strip (hd row) = [] \<Longrightarrow> csv_row row acc = acc"
  by (cases row) (auto simp: csv_row_empty csv_row_blank)

lemma card_diff_le_length: "card (set ns - A) \<le> length ns"
proof -
  have "card (set ns - A) \<le> card (set ns)"
    by (rule card_mono) auto
  also have "\<dots> \<le> length ns"
    by (rule card_length)
  finally show ?thesis .
qed

lemma fold_csv_row:
  "\<exists>tbl'. fold csv_row reader (imported, skipped, tbl) =
      (imported + card (set (trimmed_names (first_fields reader)) - set (list_of_dlist tbl)),
       skipped + (length (trimmed_names (first_fields reader))
                  - card (set (trimmed_names (first_fields reader)) - set (list_of_dlist tbl))),
       tbl')
    \<and> set (list_of_dlist tbl')
        = set (list_of_dlist tbl) \<union> set (trimmed_names (first_fields reader))"
proof (induction reader arbitrary: imported skipped tbl)
  case Nil
  then show ?case by (simp add: trimmed_names_def first_fields_def)
next
  case (Cons row reader)
  let ?ns = "trimmed_names (first_fields reader)"
  let ?T = "set (list_of_dlist tbl)"
  show ?case
  proof (cases "row = [] \<or> str_strip (hd row) = []")
    case True
    then show ?thesis
      using Cons.IH [of imported skipped tbl]
      by (simp add: csv_row_skip trimmed_names_skip)
  next
    case False
    then obtain field rest where row: "row = field # rest" and ne: "str_strip field \<noteq> []"
      by (cases row) auto
    let ?n = "str_strip field"
    have ns: "trimmed_names (first_fields (row # reader)) = ?n # ?ns"
      unfolding row using ne by (rule trimmed_names_keep)
    show ?thesis
    proof (cases "?n \<in> ?T")
      case True
      have step: "csv_row row (imported, skipped, tbl) = (imported, skipped + 1, tbl)"
        unfolding row using True by (simp add: csv_row_name [OF ne])
      have c: "insert ?n (set ?ns) - ?T = set ?ns - ?T"
        using True by auto
      have u: "insert ?n (?T \<union> set ?ns) = ?T \<union> set ?ns"
        using True by auto
      from Cons.IH [of imported "skipped + 1" tbl] obtain tbl' where
        f: "fold csv_row reader (imported, skipped + 1, tbl) =
              (imported + card (set ?ns - ?T), skipped + 1 + (length ?ns - card (set ?ns - ?T)), tbl')"
        and s: "set (list_of_dlist tbl') = ?T \<union> set ?ns"
        by blast
      have a: "skipped + 1 + (length ?ns - card (set ?ns - ?T))
                 = skipped + (Suc (length ?ns) - card (set ?ns - ?T))"
        using card_diff_le_length [of ?ns ?T] by linarith
      show ?thesis
        by (rule exI [of _ tbl']) (simp add: ns step f s c u a del: One_nat_def)
    next
      case False
      let ?T2 = "set (list_of_dlist (Dlist.insert ?n tbl))"
      have step: "csv_row row (imported, skipped, tbl)
                    = (imported + 1, skipped, Dlist.insert ?n tbl)"
        unfolding row using False by (simp add: csv_row_name [OF ne])
      have t2: "?T2 = insert ?n ?T"
        by simp
      have c: "insert ?n (set ?ns) - ?T = insert ?n (set ?ns - ?T2)"
        using False by auto
      have card: "card (insert ?n (set ?ns) - ?T) = Suc (card (set ?ns - ?T2))"
        unfolding c by (rule card_insert_disjoint) simp_all
      have u: "insert ?n (?T \<union> set ?ns) = ?T2 \<union> set ?ns"
        by auto
      from Cons.IH [of "imported + 1" skipped "Dlist.insert ?n tbl"] obtain tbl' where
        f: "fold csv_row reader (imported + 1, skipped, Dlist.insert ?n tbl) =
              (imported + 1 + card (set ?ns - ?T2), skipped + (length ?ns - card (set ?ns - ?T2)), tbl')"
        and s: "set (list_of_dlist tbl') = ?T2 \<union> set ?ns"
        by blast
      show ?thesis
        by (rule exI [of _ tbl']) (simp add: ns step f s card u del: One_nat_def list_of_dlist_insert)
    qed
  qed
qed

lemma handle_csv_upload_counts:
  "fst (handle_csv_upload reader s) =
     (card (set (trimmed_names (first_fields reader)) - set (list_of_dlist (games s))),
      length (trimmed_names (first_fields reader))
        - card (set (trimmed_names (first_fields reader)) - set (list_of_dlist (games s))))"
  using fold_csv_row [of reader 0 0 "games s"]
  by (auto simp: handle_csv_upload_def)

lemma handle_csv_upload_table:
  "set (list_of_dlist (games (snd (handle_csv_upload reader s))))
     = set (list_of_dlist (games s)) \<union> set (trimmed_names (first_fields reader))"
  using fold_csv_row [of reader 0 0 "games s"]
  by (auto simp: handle_csv_upload_def)

text \<open>
  Claim C6. The raw candidates of an upload are the first fields of its rows. Each is
  trimmed, and dropped without being counted when nothing is left; the others are the names
  of the batch. \<open>imported\<close> counts the names that were inserted, which are the different
  names that were not rows before; \<open>skipped\<close> counts all the other names, the ones refused as
  duplicates; and no failure stops the loop, since afterwards every name of the batch is a
  row. The batch "Halo", "", " Halo ", "Portal" on the empty table gives 2 and 1, and leaves
  the rows "Halo" and "Portal".
\<close>

theorem handle_csv_upload_accepted_duplicates:
  "fst (handle_csv_upload reader s) =
     (card (set (trimmed_names (first_fields reader)) - set (list_of_dlist (games s))),
      length (trimmed_names (first_fields reader))
        - card (set (trimmed_names (first_fields reader)) - set (list_of_dlist (games s))))
   \<and> set (list_of_dlist (games (snd (handle_csv_upload reader s))))
       = set (list_of_dlist (games s)) \<union> set (trimmed_names (first_fields reader))
   \<and> fst (handle_csv_upload [[''Halo''], [], ['' Halo ''], [''Portal'']]
            \<lparr>games = Dlist.empty, checkbox_states = DAList.empty\<rparr>) = (2, 1)
   \<and> get_all_games (snd (handle_csv_upload [[''Halo''], [], ['' Halo ''], [''Portal'']]
            \<lparr>games = Dlist.empty, checkbox_states = DAList.empty\<rparr>)) = [''Halo'', ''Portal'']"
proof (intro conjI)
  show "fst (handle_csv_upload [[''Halo''], [], ['' Halo ''], [''Portal'']]
            \<lparr>games = Dlist.empty, checkbox_states = DAList.empty\<rparr>) = (2, 1)"
    by code_simp
  show "get_all_games (snd (handle_csv_upload [[''Halo''], [], ['' Halo ''], [''Portal'']]
            \<lparr>games = Dlist.empty, checkbox_states = DAList.empty\<rparr>)) = [''Halo'', ''Portal'']"
    by code_simp
qed (rule handle_csv_upload_counts handle_csv_upload_table)+

text \<open>
  Claim C10. Only the first field of a row counts: cutting every row down to its first field
  changes neither the counters nor the resulting state, and every row of the table after the
  upload was a row before or is a trimmed first field. A row that is empty, or whose first
  field is blank, can be left out of the file without any change to the result.
\<close>

theorem handle_csv_upload_first_field_only:
  "handle_csv_upload (map (take 1) reader) s = handle_csv_upload reader s
   \<and> (row = [] \<or> str_strip (hd row) = []
        \<longrightarrow> handle_csv_upload (before @ row # after) s = handle_csv_upload (before @ after) s)
   \<and> set (list_of_dlist (games (snd (handle_csv_upload reader s))))
        \<subseteq> set (list_of_dlist (games s)) \<union> str_strip ` set (first_fields reader)"
proof (intro conjI impI)
  show "handle_csv_upload (map (take 1) reader) s = handle_csv_upload reader s"
    by (simp add: handle_csv_upload_def fold_csv_row_take del: One_nat_def)
next
  assume "row = [] \<or> str_strip (hd row) = []"
  then have "csv_row row acc = acc" for acc
    by (rule csv_row_skip)
  then show "handle_csv_upload (before @ row # after) s = handle_csv_upload (before @ after) s"
    by (simp add: handle_csv_upload_def)
next
  show "set (list_of_dlist (games (snd (handle_csv_upload reader s))))
        \<subseteq> set (list_of_dlist (games s)) \<union> str_strip ` set (first_fields reader)"
    unfolding handle_csv_upload_table by (auto simp: trimmed_names_def)
qed

theorem handle_csv_upload_first_field_only_witness:
  "str_strip (hd [''  '', ''Portal'']) = []
   \<and> handle_csv_upload ([[''Halo'', ''Doom'']] @ [''  '', ''Portal''] # [[''Quake'']])
         \<lparr>games = Dlist.empty, checkbox_states = DAList.empty\<rparr>
       = handle_csv_upload ([[''Halo'', ''Doom'']] @ [[''Quake'']])
           \<lparr>games = Dlist.empty, checkbox_states = DAList.empty\<rparr>
   \<and> fst (handle_csv_upload ([[''Halo'', ''Doom'']] @ [[''Quake'']])
           \<lparr>games = Dlist.empty, checkbox_states = DAList.empty\<rparr>) = (2, 0)"
proof -
  let ?s = "\<lparr>games = Dlist.empty, checkbox_states = DAList.empty\<rparr>"
  have h: "str_strip (hd [''  '', ''Portal'']) = []"
    by code_simp
  then have h': "[''  '', ''Portal''] = [] \<or> str_strip (hd [''  '', ''Portal'']) = []"
    by (rule disjI2)
  have "[''  '', ''Portal''] = [] \<or> str_strip (hd [''  '', ''Portal'']) = []
        \<longrightarrow> handle_csv_upload ([[''Halo'', ''Doom'']] @ [''  '', ''Portal''] # [[''Quake'']]) ?s
            = handle_csv_upload ([[''Halo'', ''Doom'']] @ [[''Quake'']]) ?s"
    using handle_csv_upload_first_field_only
      [of "[[''Halo'', ''Doom'']] @ [[''Quake'']]" ?s "[''  '', ''Portal'']"
          "[[''Halo'', ''Doom'']]" "[[''Quake'']]"]
    by (elim conjE)
  then have e: "handle_csv_upload ([[''Halo'', ''Doom'']] @ [''  '', ''Portal''] # [[''Quake'']]) ?s
            = handle_csv_upload ([[''Halo'', ''Doom'']] @ [[''Quake'']]) ?s"
    using h' by (rule mp)
  have c: "fst (handle_csv_upload ([[''Halo'', ''Doom'']] @ [[''Quake'']]) ?s) = (2, 0)"
    by code_simp
  from h e c show ?thesis
    by (intro conjI)
qed

section \<open>Adding one title\<close>

lemma count_list_distinct:
  "distinct xs \<Longrightarrow> count_list xs x = (if x \<in> set xs then 1 else 0)"
  by (induction xs) auto

lemma count_get_all_games:
  "count_list (get_all_games s) name = (if name \<in> set (list_of_dlist (games s)) then 1 else 0)"
  by (simp add: count_list_distinct distinct_get_all_games set_get_all_games)

lemma add_game_new:
  assumes "str_strip game \<noteq> []" and "str_strip game \<notin> set (list_of_dlist (games s))"
  shows "add_game game s
           = (Added (str_strip game),
              refresh_all_games (s\<lparr>games := Dlist.insert (str_strip game) (games s)\<rparr>))"
  using assms by (simp add: add_game_def Let_def insert_game_def member_table)

lemma add_game_duplicate:
  assumes "str_strip game \<noteq> []" and "str_strip game \<in> set (list_of_dlist (games s))"
  shows "add_game game s = (AlreadyInList (str_strip game), s)"
  using assms by (simp add: add_game_def Let_def insert_game_def member_table)

lemma add_game_member:
  assumes "str_strip game \<noteq> []"
  shows "str_strip game \<in> set (list_of_dlist (games (snd (add_game game s))))"
proof (cases "str_strip game \<in> set (list_of_dlist (games s))")
  case True
  with assms show ?thesis by (simp add: add_game_duplicate)
next
  case False
  with assms show ?thesis by (simp add: add_game_new)
qed

text \<open>
  Claim C7. Let the trimmed title be non-empty. After \<open>add_game\<close> the listing holds it exactly
  once, and when it was not a row before the notice is "Added". Adding it once more, with
  whatever white space around it, gives the notice "already in the list" and leaves the
  state, table included, as it was.
\<close>

theorem add_game_exactly_once:
  assumes "str_strip game \<noteq> []" and "str_strip again = str_strip game"
  shows "(str_strip game \<notin> set (list_of_dlist (games s))
            \<longrightarrow> fst (add_game game s) = Added (str_strip game))
         \<and> count_list (get_all_games (snd (add_game game s))) (str_strip game) = 1
         \<and> add_game again (snd (add_game game s))
             = (AlreadyInList (str_strip game), snd (add_game game s))"
proof (intro conjI impI)
  assume "str_strip game \<notin> set (list_of_dlist (games s))"
  with assms(1) show "fst (add_game game s) = Added (str_strip game)"
    by (simp add: add_game_new)
next
  show "count_list (get_all_games (snd (add_game game s))) (str_strip game) = 1"
    using add_game_member [OF assms(1), of s] by (simp add: count_get_all_games)
next
  from assms have "str_strip again \<noteq> []"
    and "str_strip again \<in> set (list_of_dlist (games (snd (add_game game s))))"
    using add_game_member [OF assms(1), of s] by simp_all
  then have "add_game again (snd (add_game game s))
               = (AlreadyInList (str_strip again), snd (add_game game s))"
    by (rule add_game_duplicate)
  with assms(2) show "add_game again (snd (add_game game s))
             = (AlreadyInList (str_strip game), snd (add_game game s))"
    by simp
qed

theorem add_game_exactly_once_witness:
  "str_strip ''Halo'' \<noteq> [] \<and> str_strip '' Halo '' = str_strip ''Halo''
   \<and> str_strip ''Halo'' \<notin> set (list_of_dlist (games
         \<lparr>games = dlist_of_list [''Doom''], checkbox_states = DAList.empty\<rparr>))
   \<and> fst (add_game ''Halo'' \<lparr>games = dlist_of_list [''Doom''], checkbox_states = DAList.empty\<rparr>)
       = Added (str_strip ''Halo'')
   \<and> count_list (get_all_games (snd (add_game ''Halo''
         \<lparr>games = dlist_of_list [''Doom''], checkbox_states = DAList.empty\<rparr>))) (str_strip ''Halo'') = 1
   \<and> fst (add_game '' Halo '' (snd (add_game ''Halo''
         \<lparr>games = dlist_of_list [''Doom''], checkbox_states = DAList.empty\<rparr>)))
       = AlreadyInList (str_strip ''Halo'')"
proof -
  let ?s = "\<lparr>games = dlist_of_list [''Doom''], checkbox_states = DAList.empty\<rparr>"
  have h1: "str_strip ''Halo'' \<noteq> []"
    by code_simp
  have h2: "str_strip '' Halo '' = str_strip ''Halo''"
    by code_simp
  have h3: "str_strip ''Halo'' \<notin> set (list_of_dlist (games ?s))"
    by code_simp
  note t = add_game_exactly_once [OF h1 h2, of ?s]
  from t h3 have a: "fst (add_game ''Halo'' ?s) = Added (str_strip ''Halo'')"
    by blast
  from t have b: "count_list (get_all_games (snd (add_game ''Halo'' ?s))) (str_strip ''Halo'') = 1"
    by blast
  from t have "add_game '' Halo '' (snd (add_game ''Halo'' ?s))
                 = (AlreadyInList (str_strip ''Halo''), snd (add_game ''Halo'' ?s))"
    by blast
  then have c: "fst (add_game '' Halo '' (snd (add_game ''Halo'' ?s)))
                  = AlreadyInList (str_strip ''Halo'')"
    by simp
  from h1 h2 h3 a b c show ?thesis
    by (intro conjI)
qed

section \<open>The random pick\<close>

lemma get_all_games_Nil: "get_all_games s = [] \<longleftrightarrow> list_of_dlist (games s) = []"
proof -
  have "get_all_games s = [] \<longleftrightarrow> set (get_all_games s) = {}"
    by simp
  also have "\<dots> \<longleftrightarrow> list_of_dlist (games s) = []"
    by (simp add: set_get_all_games)
  finally show ?thesis .
qed

lemma pick_random_None: "pick_random k s = None \<longleftrightarrow> list_of_dlist (games s) = []"
  by (simp add: pick_random_def Let_def get_all_games_Nil)

lemma random_choice_member: "xs \<noteq> [] \<Longrightarrow> random_choice k xs \<in> set xs"
  by (simp add: random_choice_def)

text \<open>
  Claim C9. \<open>pick_random\<close> reports that there are no games exactly when the table is empty;
  otherwise it shows a row of the table, whatever the draw; on the table with the single
  row "A" it shows "A", whatever the draw.
\<close>

theorem pick_random_result:
  "(pick_random k s = None \<longleftrightarrow> list_of_dlist (games s) = [])
   \<and> (list_of_dlist (games s) \<noteq> []
        \<longrightarrow> (\<exists>g \<in> set (list_of_dlist (games s)). pick_random k s = Some g))
   \<and> pick_random k (s\<lparr>games := dlist_of_list [''A'']\<rparr>) = Some ''A''"
proof (intro conjI impI)
  show "pick_random k s = None \<longleftrightarrow> list_of_dlist (games s) = []"
    by (rule pick_random_None)
next
  assume ne: "list_of_dlist (games s) \<noteq> []"
  then have g: "get_all_games s \<noteq> []"
    by (simp add: get_all_games_Nil)
  then have "random_choice k (get_all_games s) \<in> set (get_all_games s)"
    by (rule random_choice_member)
  with g show "\<exists>g \<in> set (list_of_dlist (games s)). pick_random k s = Some g"
    by (simp add: pick_random_def Let_def set_get_all_games)
next
  show "pick_random k (s\<lparr>games := dlist_of_list [''A'']\<rparr>) = Some ''A''"
    by (simp add: pick_random_def Let_def get_all_games_def random_choice_def)
qed

theorem pick_random_result_witness:
  "list_of_dlist (games \<lparr>games = dlist_of_list [''Quake'', ''Doom''],
                          checkbox_states = DAList.empty\<rparr>) \<noteq> []
   \<and> (\<exists>g \<in> set (list_of_dlist (games \<lparr>games = dlist_of_list [''Quake'', ''Doom''],
                                          checkbox_states = DAList.empty\<rparr>)).
         pick_random 3 \<lparr>games = dlist_of_list [''Quake'', ''Doom''],
                          checkbox_states = DAList.empty\<rparr> = Some g)
   \<and> pick_random 3 \<lparr>games = dlist_of_list [''Quake'', ''Doom''],
                      checkbox_states = DAList.empty\<rparr> = Some ''Quake''"
proof -
  let ?s = "\<lparr>games = dlist_of_list [''Quake'', ''Doom''], checkbox_states = DAList.empty\<rparr>"
  have h: "list_of_dlist (games ?s) \<noteq> []"
    by code_simp
  from pick_random_result [of 3 ?s] h
  have e: "\<exists>g \<in> set (list_of_dlist (games ?s)). pick_random 3 ?s = Some g"
    by blast
  have v: "pick_random 3 ?s = Some ''Quake''"
    by code_simp
  from h e v show ?thesis
    by (intro conjI)
qed

end
